theory Spec2Isabelle
  imports Complex_Main
begin

section \<open>Critical-path scheduler (operational\_calculator.py)\<close>

text \<open>
  \<^verbatim>\<open>calculate_critical_path\<close> receives a list of dictionaries with the keys
  \<^verbatim>\<open>name\<close>, \<^verbatim>\<open>duration\<close> (an int, by the docstring) and \<^verbatim>\<open>dependencies\<close>,
  and writes the keys \<^verbatim>\<open>early_start\<close>, \<^verbatim>\<open>early_finish\<close>, \<^verbatim>\<open>late_finish\<close>,
  \<^verbatim>\<open>late_start\<close> and \<^verbatim>\<open>slack\<close> into each of them. A dictionary is a record
  here; each computed key is written by the code before it is read, so whatever the
  record holds in these fields on entry plays no role. The elements of the list are
  taken to be distinct objects.
\<close>

record task =
  name :: string
  duration :: int
  dependencies :: "string list"
  early_start :: int
  early_finish :: int
  late_finish :: int
  late_start :: int
  slack :: int

text \<open>The only exception the function can raise: \<^verbatim>\<open>max()\<close> of an empty sequence.\<close>

datatype error = ValueError

record cp_result =
  project_duration :: int
  critical_path :: "string list"
  critical_path_length :: nat
  tasks_with_slack :: "string list"
  average_slack :: real

text \<open>
  \<^verbatim>\<open>task_map = {task['name']: task for task in tasks}\<close>: a later task of the same
  name replaces an earlier one. The dictionary holds the task objects themselves, so a
  lookup sees every write made so far; the model looks the name up in the current list.
\<close>

definition task_map :: "task list \<Rightarrow> string \<Rightarrow> task option" where
  "task_map tasks n = find (\<lambda>t. name t = n) (rev tasks)"

text \<open>Python's \<^verbatim>\<open>max\<close> over a sequence: ValueError when it is empty.\<close>

fun py_max :: "int list \<Rightarrow> error + int" where
  "py_max [] = Inl ValueError"
| "py_max (x # xs) = Inr (fold max xs x)"

text \<open>
  The generator \<^verbatim>\<open>task_map[dep]['early_finish'] for dep in task['dependencies'] if dep in task_map\<close>.
\<close>

definition dep_finishes :: "task list \<Rightarrow> string list \<Rightarrow> int list" where
  "dep_finishes tasks deps =
     List.map_filter (\<lambda>dep. map_option early_finish (task_map tasks dep)) deps"

text \<open>
  One run of \<^verbatim>\<open>for task in tasks\<close> inside the forward pass. \<open>seen\<close> holds the
  tasks already visited (with their writes), so \<open>seen @ task # rest\<close> is the current
  state of the whole list.
\<close>

fun forward_sweep :: "task list \<Rightarrow> task list \<Rightarrow> bool \<Rightarrow> error + (task list \<times> bool)" where
  "forward_sweep seen [] changed = Inr (seen, changed)"
| "forward_sweep seen (task # rest) changed =
     (if dependencies task \<noteq> [] then
        (case py_max (dep_finishes (seen @ task # rest) (dependencies task)) of
           Inl e \<Rightarrow> Inl e
         | Inr max_finish \<Rightarrow>
             if early_start task < max_finish
             then forward_sweep
                    (seen @ [task\<lparr>early_start := max_finish,
                                  early_finish := max_finish + duration task\<rparr>])
                    rest True
             else forward_sweep (seen @ [task]) rest changed)
      else forward_sweep (seen @ [task]) rest changed)"

text \<open>
  \<^verbatim>\<open>changed = True; while changed: changed = False; for task in tasks: ...\<close>.
  Nothing bounds the number of rounds, so the loop is a partial function: \<open>None\<close> is
  a run that never leaves the loop.
\<close>

partial_function (option) forward_pass :: "task list \<Rightarrow> (error + task list) option" where
  "forward_pass tasks =
     (case forward_sweep [] tasks False of
        Inl e \<Rightarrow> Some (Inl e)
      | Inr (tasks', changed) \<Rightarrow>
          if changed then forward_pass tasks' else Some (Inr tasks'))"

definition init_early :: "task list \<Rightarrow> task list" where
  "init_early tasks = map (\<lambda>t. t\<lparr>early_start := 0, early_finish := duration t\<rparr>) tasks"

definition backward_pass :: "int \<Rightarrow> task list \<Rightarrow> task list" where
  "backward_pass pd tasks =
     map (\<lambda>t. t\<lparr>late_finish := pd, late_start := pd - duration t\<rparr>) tasks"

definition set_slack :: "task list \<Rightarrow> task list" where
  "set_slack tasks = map (\<lambda>t. t\<lparr>slack := late_start t - early_start t\<rparr>) tasks"

text \<open>
  Everything after the forward pass. The result comes with the task list as the
  function leaves it, since the caller's dictionaries are written in place.
\<close>

definition finish_schedule :: "task list \<Rightarrow> error + (cp_result \<times> task list)" where
  "finish_schedule tasks =
     (case py_max (map early_finish tasks) of
        Inl e \<Rightarrow> Inl e
      | Inr pd \<Rightarrow>
          (let tasks' = set_slack (backward_pass pd tasks);
               critical_tasks = map name (filter (\<lambda>t. slack t = 0) tasks')
           in Inr (\<lparr>project_duration = pd,
                     critical_path = critical_tasks,
                     critical_path_length = length critical_tasks,
                     tasks_with_slack = map name (filter (\<lambda>t. slack t > 0) tasks'),
                     average_slack =
                       (if tasks' \<noteq> []
                        then real_of_int (sum_list (map slack tasks')) / real (length tasks')
                        else 0)\<rparr>,
                   tasks')))"

definition calculate_critical_path ::
    "task list \<Rightarrow> (error + (cp_result \<times> task list)) option" where
  "calculate_critical_path tasks =
     (case forward_pass (init_early tasks) of
        None \<Rightarrow> None
      | Some (Inl e) \<Rightarrow> Some (Inl e)
      | Some (Inr tasks') \<Rightarrow> Some (finish_schedule tasks'))"

text \<open>A task as the caller writes it: the computed keys are not there yet.\<close>

definition mk_task :: "string \<Rightarrow> int \<Rightarrow> string list \<Rightarrow> task" where
  "mk_task n d deps =
     \<lparr>name = n, duration = d, dependencies = deps, early_start = 0, early_finish = 0,
      late_finish = 0, late_start = 0, slack = 0\<rparr>"

section \<open>Risk analyzer (risk\_analyzer.py)\<close>

text \<open>
  Python floats are modelled as real numbers: the arithmetic of \<open>adjust_for_base_rate\<close>,
  \<open>bayesian_update\<close> and \<open>monte_carlo_simulation\<close> below is exact, where the program
  rounds every operation to the nearest double. For the Bayesian update the rounding is
  written out as well, in \<open>bayesian_update_double\<close>.
\<close>

subsection \<open>Base-rate adjustment\<close>

text \<open>The table \<^verbatim>\<open>self.base_rates\<close> set up by \<^verbatim>\<open>__init__\<close>.\<close>

definition base_rates :: "(string \<times> real) list" where
  "base_rates =
     [(''startup_unicorn'', 0.00006),
      (''new_product_success'', 0.05),
      (''it_project_on_time'', 0.16),
      (''ma_value_creation'', 0.30),
      (''platform_network_effects'', 0.01),
      (''behavior_change_scale'', 0.08),
      (''regulatory_approval_new'', 0.22),
      (''disruption_incumbent'', 0.03)]"

definition adjust_for_base_rate :: "real \<Rightarrow> string \<Rightarrow> real" where
  "adjust_for_base_rate optimistic_projection scenario_type =
     (case map_of base_rates scenario_type of
        Some base_rate \<Rightarrow> base_rate * 0.7 + optimistic_projection * 0.3
      | None \<Rightarrow> optimistic_projection / 3)"

subsection \<open>Bayesian update\<close>

definition bayesian_update :: "real \<Rightarrow> real \<Rightarrow> real \<Rightarrow> real" where
  "bayesian_update prior likelihood_given_true likelihood_given_false =
     (let evidence = likelihood_given_true * prior + likelihood_given_false * (1 - prior)
      in if evidence = 0 then prior
         else (likelihood_given_true * prior) / evidence)"

subsection \<open>Bayesian update in double precision\<close>

text \<open>
  A Python float is an IEEE 754 double, and each of \<^verbatim>\<open>*\<close>, \<^verbatim>\<open>-\<close>, \<^verbatim>\<open>+\<close> and \<^verbatim>\<open>/\<close>
  returns the double nearest to the exact result, ties going to the even significand.
  The doubles around \<open>x\<close> are the integer multiples of \<open>2\<^sup>q\<close>, where \<open>q\<close> is the least
  exponent from -1074 to 971 with \<open>\<bar>x\<bar> < 2\<^bsup>q + 53\<^esup>\<close>: 53 significant bits for normal
  numbers, and the fixed spacing \<open>2\<^bsup>-1074\<^esup>\<close> of the subnormal numbers below \<open>2\<^bsup>-1022\<^esup>\<close>.
\<close>

definition quantum :: "real \<Rightarrow> int option" where
  "quantum x = find (\<lambda>q. \<bar>x\<bar> < 2 powi (q + 53)) [-1074..971]"

definition round_half_even :: "real \<Rightarrow> int" where
  "round_half_even y =
     (let f = \<lfloor>y\<rfloor>; r = y - of_int f
      in if r < 1 / 2 then f
         else if 1 / 2 < r then f + 1
         else if even f then f else f + 1)"

text \<open>
  \<open>round_double x\<close> is \<open>None\<close> where the rounded value is no finite double: the
  operation overflows. Infinities and NaN are outside the model.
\<close>

definition round_double :: "real \<Rightarrow> real option" where
  "round_double x =
     (case quantum x of
        None \<Rightarrow> None
      | Some q \<Rightarrow>
          (let y = of_int (round_half_even (x / 2 powi q)) * 2 powi q
           in if \<bar>y\<bar> < 2 powi 1024 then Some y else None))"

text \<open>
  \<^verbatim>\<open>bayesian_update\<close> with every operation rounded, in the order the program evaluates
  them. The program computes \<^verbatim>\<open>likelihood_given_true * prior\<close> twice, to the same
  double. The test \<^verbatim>\<open>evidence == 0\<close> guards the division.
\<close>

definition bayesian_update_double :: "real \<Rightarrow> real \<Rightarrow> real \<Rightarrow> real option" where
  "bayesian_update_double prior likelihood_given_true likelihood_given_false =
     Option.bind (round_double (likelihood_given_true * prior)) (\<lambda>true_part.
     Option.bind (round_double (1 - prior)) (\<lambda>complement.
     Option.bind (round_double (likelihood_given_false * complement)) (\<lambda>false_part.
     Option.bind (round_double (true_part + false_part)) (\<lambda>evidence.
       if evidence = 0 then Some prior
       else round_double (true_part / evidence)))))"

subsection \<open>Monte Carlo simulation\<close>

text \<open>
  The NumPy reductions the function calls, over real numbers, each for a non-empty array.
  \<^verbatim>\<open>np.percentile\<close> with its default method (linear interpolation): the sorted array
  is read at the virtual index \<open>q / 100 * (n - 1)\<close>, between the two neighbouring
  entries, the upper index clipped to the array.
\<close>

definition np_percentile :: "real list \<Rightarrow> real \<Rightarrow> real" where
  "np_percentile a q =
     (let s = sort a;
          n = length a;
          h = q / 100 * real (n - 1);
          lo = nat \<lfloor>h\<rfloor>;
          hi = min (lo + 1) (n - 1)
      in s ! lo + (s ! hi - s ! lo) * (h - real lo))"

definition np_mean :: "real list \<Rightarrow> real" where
  "np_mean a = sum_list a / real (length a)"

definition np_median :: "real list \<Rightarrow> real" where
  "np_median a =
     (let s = sort a; n = length a
      in if odd n then s ! (n div 2) else (s ! (n div 2 - 1) + s ! (n div 2)) / 2)"

definition np_std :: "real list \<Rightarrow> real" where
  "np_std a = sqrt (np_mean (map (\<lambda>x. (x - np_mean a)\<^sup>2) a))"

record simulation =
  mean :: real
  median :: real
  std :: real
  p5 :: real
  p10 :: real
  p25 :: real
  p50 :: real
  p75 :: real
  p90 :: real
  p95 :: real
  worst_case :: real
  best_case :: real
  probability_loss :: real
  value_at_risk_95 :: real
  conditional_var_95 :: real

text \<open>
  The function has no generator or seed among its parameters: it draws from NumPy's
  global generator. The two arrays it draws are arguments of the model:
  \<open>normal_draws\<close> is what \<^verbatim>\<open>np.random.normal(base_case, base_case * volatility, n_simulations)\<close>
  returned and \<open>uniform_draws\<close> what \<^verbatim>\<open>np.random.random(n_simulations)\<close> returned,
  both of length \<open>n_simulations\<close>. The model returns \<open>None\<close> where NumPy gives no
  real-valued statistics: a negative scale, which \<^verbatim>\<open>np.random.normal\<close> rejects, and
  an empty sample.
\<close>

definition monte_carlo_simulation ::
    "real list \<Rightarrow> real list \<Rightarrow> real \<Rightarrow> real \<Rightarrow> nat \<Rightarrow> bool \<Rightarrow> simulation option" where
  "monte_carlo_simulation normal_draws uniform_draws base_case volatility n_simulations
       include_black_swan =
     (if base_case * volatility < 0 \<or> n_simulations = 0 then None
      else
        (let simulations =
               (if include_black_swan
                then map2 (\<lambda>x u. if u < 0.01 then base_case * 0.1 else x)
                       normal_draws uniform_draws
                else normal_draws);
             percentiles = map (np_percentile simulations) [5, 10, 25, 50, 75, 90, 95]
         in Some
              \<lparr>mean = np_mean simulations,
               median = np_median simulations,
               std = np_std simulations,
               p5 = percentiles ! 0,
               p10 = percentiles ! 1,
               p25 = percentiles ! 2,
               p50 = percentiles ! 3,
               p75 = percentiles ! 4,
               p90 = percentiles ! 5,
               p95 = percentiles ! 6,
               worst_case = Min (set simulations),
               best_case = Max (set simulations),
               probability_loss =
                 real (length (filter (\<lambda>x. x < 0) simulations)) / real n_simulations,
               value_at_risk_95 = percentiles ! 0,
               conditional_var_95 =
                 np_mean (filter (\<lambda>x. x \<le> percentiles ! 0) simulations)\<rparr>))"

section \<open>Notions used in the statements and proofs\<close>

text \<open>
  The forward pass keeps every task's \<open>early_finish\<close> equal to its
  \<open>early_start\<close> plus its duration.
\<close>

definition finish_consistent :: "task list \<Rightarrow> bool" where
  "finish_consistent tasks = (\<forall>t \<in> set tasks. early_finish t = early_start t + duration t)"


definition keep_deps :: "(string \<Rightarrow> bool) \<Rightarrow> task \<Rightarrow> task" where
  "keep_deps K t = t\<lparr>dependencies := filter K (dependencies t)\<rparr>"




text \<open>The interpolation step of \<open>np_percentile\<close> on a sorted array, at a virtual index.\<close>

definition interpolate :: "real list \<Rightarrow> nat \<Rightarrow> real \<Rightarrow> real" where
  "interpolate s m h =
     (let lo = nat \<lfloor>h\<rfloor>; hi = min (lo + 1) m
      in s ! lo + (s ! hi - s ! lo) * (h - real lo))"

section \<open>Inputs used in the examples\<close>

text \<open>The four-task graph: A, then B and C in parallel, then D.\<close>

definition four_tasks :: "task list" where
  "four_tasks =
     [mk_task ''A'' 3 [], mk_task ''B'' 2 [''A''], mk_task ''C'' 4 [''A''],
      mk_task ''D'' 1 [''B'', ''C'']]"

text \<open>
  Two tasks that depend on each other, and the states the forward pass takes them
  through: only the early times change.
\<close>

definition cyclic_tasks :: "task list" where
  "cyclic_tasks = [mk_task ''A'' 1 [''B''], mk_task ''B'' 1 [''A'']]"

definition cyclic_state :: "int \<Rightarrow> int \<Rightarrow> task list" where
  "cyclic_state a b =
     [\<lparr>name = ''A'', duration = 1, dependencies = [''B''], early_start = a,
       early_finish = a + 1, late_finish = 0, late_start = 0, slack = 0\<rparr>,
      \<lparr>name = ''B'', duration = 1, dependencies = [''A''], early_start = b,
       early_finish = b + 1, late_finish = 0, late_start = 0, slack = 0\<rparr>]"


text \<open>
  The doubles that the literals \<^verbatim>\<open>0.1\<close>, \<^verbatim>\<open>0.4\<close> and \<^verbatim>\<open>0.3\<close> denote, and the
  smallest positive double, which the literal \<^verbatim>\<open>5e-324\<close> denotes.
\<close>

definition double_0_1 :: real where
  "double_0_1 = 3602879701896397 / 2 ^ 55"

definition double_0_4 :: real where
  "double_0_4 = 3602879701896397 / 2 ^ 53"

definition double_0_3 :: real where
  "double_0_3 = 5404319552844595 / 2 ^ 54"

definition double_min :: real where
  "double_min = 1 / 2 ^ 1074"

section \<open>Running the forward pass\<close>

text \<open>One round of the while loop, according to what the sweep returns.\<close>

lemma forward_pass_stable:
  "forward_sweep [] tasks False = Inr (tasks', False) \<Longrightarrow>
   forward_pass tasks = Some (Inr tasks')"
  by (subst forward_pass.simps) simp

lemma forward_pass_again:
  "forward_sweep [] tasks False = Inr (tasks', True) \<Longrightarrow>
   forward_pass tasks = forward_pass tasks'"
  by (subst forward_pass.simps) simp


lemmas sweep_eval =
  init_early_def mk_task_def dep_finishes_def task_map_def List.map_filter_def

text \<open>The forward pass on the four-task graph: one round writes, the next one is quiet.\<close>

lemma four_tasks_forward:
  "forward_pass (init_early four_tasks) = Some (Inr
     [\<lparr>name = ''A'', duration = 3, dependencies = [], early_start = 0,
       early_finish = 3, late_finish = 0, late_start = 0, slack = 0\<rparr>,
      \<lparr>name = ''B'', duration = 2, dependencies = [''A''], early_start = 3,
       early_finish = 5, late_finish = 0, late_start = 0, slack = 0\<rparr>,
      \<lparr>name = ''C'', duration = 4, dependencies = [''A''], early_start = 3,
       early_finish = 7, late_finish = 0, late_start = 0, slack = 0\<rparr>,
      \<lparr>name = ''D'', duration = 1, dependencies = [''B'', ''C''], early_start = 7,
       early_finish = 8, late_finish = 0, late_start = 0, slack = 0\<rparr>])"
  apply (subst forward_pass_again)
   apply (simp add: four_tasks_def sweep_eval)
  apply (rule forward_pass_stable)
  apply (simp add: sweep_eval)
  done

lemma four_tasks_run:
  "calculate_critical_path four_tasks = Some (Inr
     (\<lparr>project_duration = 8, critical_path = [''D''], critical_path_length = 1,
       tasks_with_slack = [''A'', ''B'', ''C''], average_slack = 9 / 4\<rparr>,
      [\<lparr>name = ''A'', duration = 3, dependencies = [], early_start = 0,
        early_finish = 3, late_finish = 8, late_start = 5, slack = 5\<rparr>,
       \<lparr>name = ''B'', duration = 2, dependencies = [''A''], early_start = 3,
        early_finish = 5, late_finish = 8, late_start = 6, slack = 3\<rparr>,
       \<lparr>name = ''C'', duration = 4, dependencies = [''A''], early_start = 3,
        early_finish = 7, late_finish = 8, late_start = 4, slack = 1\<rparr>,
       \<lparr>name = ''D'', duration = 1, dependencies = [''B'', ''C''], early_start = 7,
        early_finish = 8, late_finish = 8, late_start = 7, slack = 0\<rparr>]))"
  unfolding calculate_critical_path_def four_tasks_forward
  by (simp add: finish_schedule_def backward_pass_def set_slack_def)

section \<open>The scheduler on the four-task graph\<close>

text \<open>
  C1. The claim asks for a backward pass that takes \<open>late_finish\<close> from the successors
  of a task, hence project duration 8, critical path A, C, D and slack 2 for B on the
  four-task graph. The code's backward pass gives every task the project duration as
  \<open>late_finish\<close>: on this graph the call returns project duration 8 and the critical
  path D alone, and the slacks written are 5 for A, 3 for B, 1 for C and 0 for D.
\<close>

theorem four_tasks_schedule:
  "\<exists>r tasks'. calculate_critical_path four_tasks = Some (Inr (r, tasks'))
     \<and> project_duration r = 8
     \<and> critical_path r = [''D'']
     \<and> map (\<lambda>t. (name t, late_finish t, slack t)) tasks' =
         [(''A'', 8, 5), (''B'', 8, 3), (''C'', 8, 1), (''D'', 8, 0)]"
  by (simp add: four_tasks_run)

section \<open>The empty collection\<close>

text \<open>
  C4. The claim asks for project duration 0, an empty critical path and no error on the
  empty task list. The code reaches \<^verbatim>\<open>max(task['early_finish'] for task in tasks)\<close>
  with nothing to take the maximum of, and the call ends in a ValueError.
\<close>

theorem empty_tasks_value_error:
  "calculate_critical_path [] = Some (Inl ValueError)"
  by (simp add: calculate_critical_path_def init_early_def forward_pass_stable
      finish_schedule_def)

section \<open>Tasks that depend on each other\<close>

lemma cyclic_init: "init_early cyclic_tasks = cyclic_state 0 0"
  by (simp add: cyclic_tasks_def cyclic_state_def init_early_def mk_task_def)

lemma cyclic_sweep:
  "a \<le> b \<Longrightarrow> forward_sweep [] (cyclic_state a b) False = Inr (cyclic_state (b + 1) (b + 2), True)"
  by (simp add: cyclic_state_def dep_finishes_def task_map_def List.map_filter_def)

lemma cyclic_never_returns:
  assumes "forward_pass tasks = Some y"
  shows "\<not> (\<exists>a b. a \<le> b \<and> tasks = cyclic_state a b)"
proof (rule forward_pass.raw_induct
    [where P = "\<lambda>tasks y. \<not> (\<exists>a b. a \<le> b \<and> tasks = cyclic_state a b)", OF _ assms])
  fix f tasks y
  assume IH: "\<And>x y. f x = Some y \<Longrightarrow> \<not> (\<exists>a b. a \<le> b \<and> x = cyclic_state a b)"
    and body: "(case forward_sweep [] tasks False of
                  Inl e \<Rightarrow> Some (Inl e)
                | Inr (tasks', changed) \<Rightarrow>
                    if changed then f tasks' else Some (Inr tasks')) = Some y"
  show "\<not> (\<exists>a b. a \<le> b \<and> tasks = cyclic_state a b)"
  proof
    assume "\<exists>a b. a \<le> b \<and> tasks = cyclic_state a b"
    then obtain a b where ab: "a \<le> b" "tasks = cyclic_state a b" by blast
    from body have "f (cyclic_state (b + 1) (b + 2)) = Some y"
      by (simp add: ab cyclic_sweep)
    from IH [OF this]
    have "\<not> (b + 1 \<le> b + 2 \<and> cyclic_state (b + 1) (b + 2) = cyclic_state (b + 1) (b + 2))"
      by blast
    then show False by simp
  qed
qed

text \<open>
  C2. The claim asks that a cyclic collection makes the call stop with a cycle error. On
  A and B of duration 1 that depend on each other, every round of the forward pass
  raises both early starts, so the while loop never ends: the call returns nothing,
  neither a result nor an error.
\<close>

theorem cyclic_tasks_never_return:
  "calculate_critical_path cyclic_tasks = None"
proof -
  have "forward_pass (cyclic_state 0 0) = None"
  proof (cases "forward_pass (cyclic_state 0 0)")
    case None
    then show ?thesis .
  next
    case (Some y)
    from cyclic_never_returns [OF this]
    have "\<not> ((0::int) \<le> 0 \<and> cyclic_state 0 0 = cyclic_state 0 0)" by blast
    then show ?thesis by simp
  qed
  then show ?thesis
    by (simp add: calculate_critical_path_def cyclic_init)
qed

section \<open>What the forward pass preserves\<close>

text \<open>Names and dependency lists are never written.\<close>

lemma forward_sweep_shape:
  "forward_sweep seen rest changed = Inr (tasks', changed') \<Longrightarrow>
   map name tasks' = map name (seen @ rest) \<and>
   map dependencies tasks' = map dependencies (seen @ rest)"
proof (induction rest arbitrary: seen changed)
  case Nil
  then show ?case by simp
next
  case (Cons t rest)
  from Cons.prems show ?case
    by (auto split: if_splits sum.splits dest!: Cons.IH)
qed

lemma forward_pass_shape:
  assumes "forward_pass tasks = Some r"
  shows "\<forall>tasks'. r = Inr tasks' \<longrightarrow>
           map name tasks' = map name tasks \<and> map dependencies tasks' = map dependencies tasks"
proof (rule forward_pass.raw_induct
    [where P = "\<lambda>tasks r. \<forall>tasks'. r = Inr tasks' \<longrightarrow>
           map name tasks' = map name tasks \<and> map dependencies tasks' = map dependencies tasks",
     OF _ assms])
  fix f tasks r
  assume IH: "\<And>x y. f x = Some y \<Longrightarrow> \<forall>tasks'. y = Inr tasks' \<longrightarrow>
           map name tasks' = map name x \<and> map dependencies tasks' = map dependencies x"
    and body: "(case forward_sweep [] tasks False of
                  Inl e \<Rightarrow> Some (Inl e)
                | Inr (tasks', changed) \<Rightarrow>
                    if changed then f tasks' else Some (Inr tasks')) = Some r"
  show "\<forall>tasks'. r = Inr tasks' \<longrightarrow>
           map name tasks' = map name tasks \<and> map dependencies tasks' = map dependencies tasks"
  proof (intro allI impI)
    fix tasks' assume r: "r = Inr tasks'"
    from body r obtain mid changed where sw: "forward_sweep [] tasks False = Inr (mid, changed)"
      and rest: "if changed then f mid = Some (Inr tasks') else mid = tasks'"
      by (auto split: sum.splits if_splits)
    from forward_sweep_shape [OF sw]
    have mid: "map name mid = map name tasks" "map dependencies mid = map dependencies tasks"
      by simp_all
    show "map name tasks' = map name tasks \<and> map dependencies tasks' = map dependencies tasks"
    proof (cases changed)
      case True
      with rest have "f mid = Some (Inr tasks')" by simp
      from IH [OF this] mid show ?thesis by simp
    next
      case False
      with rest mid show ?thesis by simp
    qed
  qed
qed

text \<open>Each write keeps \<open>early_finish = early_start + duration\<close>.\<close>

lemma forward_sweep_consistent:
  "forward_sweep seen rest changed = Inr (tasks', changed') \<Longrightarrow>
   finish_consistent seen \<Longrightarrow> finish_consistent rest \<Longrightarrow> finish_consistent tasks'"
proof (induction rest arbitrary: seen changed)
  case Nil
  then show ?case by simp
next
  case (Cons t rest)
  from Cons.prems(3) have rest: "finish_consistent rest" and t: "early_finish t = early_start t + duration t"
    by (simp_all add: finish_consistent_def)
  have seen1: "finish_consistent (seen @ [t])"
    using Cons.prems(2) t by (simp add: finish_consistent_def)
  have seen2: "finish_consistent (seen @ [t\<lparr>early_start := m, early_finish := m + duration t\<rparr>])" for m
    using Cons.prems(2) by (simp add: finish_consistent_def)
  from Cons.prems(1) show ?case
    by (auto split: if_splits sum.splits intro: Cons.IH[OF _ seen1 rest] Cons.IH[OF _ seen2 rest])
qed

lemma forward_pass_consistent:
  assumes "forward_pass tasks = Some r"
  shows "\<forall>tasks'. r = Inr tasks' \<longrightarrow> finish_consistent tasks \<longrightarrow> finish_consistent tasks'"
proof (rule forward_pass.raw_induct
    [where P = "\<lambda>tasks r. \<forall>tasks'. r = Inr tasks' \<longrightarrow> finish_consistent tasks \<longrightarrow>
           finish_consistent tasks'", OF _ assms])
  fix f tasks r
  assume IH: "\<And>x y. f x = Some y \<Longrightarrow>
      \<forall>tasks'. y = Inr tasks' \<longrightarrow> finish_consistent x \<longrightarrow> finish_consistent tasks'"
    and body: "(case forward_sweep [] tasks False of
                  Inl e \<Rightarrow> Some (Inl e)
                | Inr (tasks', changed) \<Rightarrow>
                    if changed then f tasks' else Some (Inr tasks')) = Some r"
  show "\<forall>tasks'. r = Inr tasks' \<longrightarrow> finish_consistent tasks \<longrightarrow> finish_consistent tasks'"
  proof (intro allI impI)
    fix tasks' assume r: "r = Inr tasks'" and fc: "finish_consistent tasks"
    from body r obtain mid changed where sw: "forward_sweep [] tasks False = Inr (mid, changed)"
      and rest: "if changed then f mid = Some (Inr tasks') else mid = tasks'"
      by (auto split: sum.splits if_splits)
    have mid: "finish_consistent mid"
      using forward_sweep_consistent [OF sw _ fc] by (simp add: finish_consistent_def)
    show "finish_consistent tasks'"
    proof (cases changed)
      case True
      with rest have "f mid = Some (Inr tasks')" by simp
      from IH [OF this] mid show ?thesis by simp
    next
      case False
      with rest mid show ?thesis by simp
    qed
  qed
qed

lemma init_early_consistent: "finish_consistent (init_early tasks)"
  by (simp add: finish_consistent_def init_early_def)

lemma py_max_attained:
  "xs \<noteq> [] \<Longrightarrow> \<exists>m. py_max xs = Inr m \<and> m \<in> set xs \<and> (\<forall>x \<in> set xs. x \<le> m)"
proof (cases xs)
  case Nil
  then show "xs \<noteq> [] \<Longrightarrow> ?thesis" by simp
next
  case (Cons x ys)
  have "fold max ys x = Max (set (x # ys))"
    by (rule Max.set_eq_fold [symmetric])
  moreover have "Max (set (x # ys)) \<in> set (x # ys)"
    by (rule Max_in) simp_all
  moreover have "\<forall>z \<in> set (x # ys). z \<le> Max (set (x # ys))"
    by (simp add: Max_ge_iff)
  ultimately show ?thesis using Cons by simp
qed

section \<open>Tasks that finish with the project\<close>

text \<open>
  C9. When the call returns a result for a non-empty task list, the critical path it
  returns is not empty: some task finishes at the project duration, and every task
  that does has slack 0 and its name in the critical path. Durations are integers, as
  the docstring has them.
\<close>

theorem critical_path_nonempty:
  assumes "tasks \<noteq> []"
    and "calculate_critical_path tasks = Some (Inr (r, tasks'))"
  shows "critical_path r \<noteq> []
     \<and> (\<exists>t \<in> set tasks'. early_finish t = project_duration r)
     \<and> (\<forall>t \<in> set tasks'. early_finish t = project_duration r \<longrightarrow>
           slack t = 0 \<and> name t \<in> set (critical_path r))"
proof -
  from assms(2) obtain ts where fp: "forward_pass (init_early tasks) = Some (Inr ts)"
    and fin: "finish_schedule ts = Inr (r, tasks')"
    by (auto simp: calculate_critical_path_def split: option.splits sum.splits)
  from forward_pass_consistent [OF fp] init_early_consistent
  have ts: "finish_consistent ts" by simp
  from forward_pass_shape [OF fp] have "map name ts = map name (init_early tasks)"
    by simp
  then have len: "length ts = length tasks"
    by (metis init_early_def length_map)
  with assms(1) have "map early_finish ts \<noteq> []" by auto
  from py_max_attained [OF this] obtain pd where pd: "py_max (map early_finish ts) = Inr pd"
    and att: "pd \<in> set (map early_finish ts)" by blast
  from fin pd have r: "project_duration r = pd"
    and cp: "critical_path r = map name (filter (\<lambda>t. slack t = 0) tasks')"
    and tasks': "tasks' = set_slack (backward_pass pd ts)"
    by (auto simp: finish_schedule_def Let_def)
  have sl: "slack t = pd - early_finish t" if "t \<in> set tasks'" for t
    using that ts by (auto simp: tasks' set_slack_def backward_pass_def finish_consistent_def)
  have ef: "early_finish ` set tasks' = early_finish ` set ts"
    by (auto simp: tasks' set_slack_def backward_pass_def image_iff)
  have crit: "slack t = 0 \<and> name t \<in> set (critical_path r)"
    if "t \<in> set tasks'" "early_finish t = project_duration r" for t
    using that sl [of t] by (auto simp: r cp)
  from att ef have "pd \<in> early_finish ` set tasks'" by simp
  then obtain t where t: "t \<in> set tasks'" "early_finish t = project_duration r"
    unfolding r by force
  from crit [OF t] have "critical_path r \<noteq> []" by auto
  with t crit show ?thesis by blast
qed

theorem critical_path_nonempty_witness:
  "four_tasks \<noteq> []
   \<and> (\<exists>r tasks'. calculate_critical_path four_tasks = Some (Inr (r, tasks'))
        \<and> critical_path r \<noteq> []
        \<and> (\<exists>t \<in> set tasks'. early_finish t = project_duration r \<and> slack t = 0
              \<and> name t \<in> set (critical_path r)))"
proof -
  have ne: "four_tasks \<noteq> []"
    by (simp add: four_tasks_def)
  from critical_path_nonempty [OF ne four_tasks_run] ne four_tasks_run show ?thesis
    by blast
qed

section \<open>Dependencies that resolve to no task\<close>






lemma keep_deps_fields [simp]:
  "name (keep_deps K t) = name t"
  "duration (keep_deps K t) = duration t"
  "early_start (keep_deps K t) = early_start t"
  "early_finish (keep_deps K t) = early_finish t"
  "late_start (keep_deps K t) = late_start t"
  "late_finish (keep_deps K t) = late_finish t"
  "slack (keep_deps K t) = slack t"
  "dependencies (keep_deps K t) = filter K (dependencies t)"
  by (simp_all add: keep_deps_def)


















section \<open>Base-rate adjustment\<close>

text \<open>
  C6. \<open>adjust_for_base_rate\<close> returns \<open>base_rate * 0.7 + projection * 0.3\<close> when the
  scenario is a key of the base-rate table and a third of the projection otherwise;
  10,000,000 for \<open>new_product_success\<close> (base rate 0.05) gives 3,000,000.035.
\<close>

theorem adjust_for_base_rate_blend:
  "(scenario \<in> fst ` set base_rates \<longrightarrow>
      adjust_for_base_rate projection scenario =
        the (map_of base_rates scenario) * 0.7 + projection * 0.3)
   \<and> (scenario \<notin> fst ` set base_rates \<longrightarrow>
      adjust_for_base_rate projection scenario = projection / 3)
   \<and> map_of base_rates ''new_product_success'' = Some 0.05
   \<and> adjust_for_base_rate 10000000 ''new_product_success'' = 3000000.035"
proof (intro conjI impI)
  assume "scenario \<in> fst ` set base_rates"
  then obtain r where "map_of base_rates scenario = Some r"
    by (metis map_of_eq_None_iff not_Some_eq)
  then show "adjust_for_base_rate projection scenario =
      the (map_of base_rates scenario) * 0.7 + projection * 0.3"
    by (simp add: adjust_for_base_rate_def)
next
  assume "scenario \<notin> fst ` set base_rates"
  then have "map_of base_rates scenario = None"
    by (simp add: map_of_eq_None_iff)
  then show "adjust_for_base_rate projection scenario = projection / 3"
    by (simp add: adjust_for_base_rate_def)
next
  show "map_of base_rates ''new_product_success'' = Some 0.05"
    by (simp add: base_rates_def)
next
  show "adjust_for_base_rate 10000000 ''new_product_success'' = 3000000.035"
    by (simp add: adjust_for_base_rate_def base_rates_def)
qed

theorem adjust_for_base_rate_blend_witness:
  "''it_project_on_time'' \<in> fst ` set base_rates
   \<and> adjust_for_base_rate 200 ''it_project_on_time'' = 60.112
   \<and> ''moonshot'' \<notin> fst ` set base_rates
   \<and> adjust_for_base_rate 9 ''moonshot'' = 3"
  using adjust_for_base_rate_blend [of "''it_project_on_time''" 200]
    adjust_for_base_rate_blend [of "''moonshot''" 9]
  by (simp add: base_rates_def)

section \<open>Bayesian update\<close>

text \<open>
  C10. Certainty is a fixed point of the update: with likelihoods in the unit interval,
  a prior of 0 is updated to 0 and a prior of 1 to 1.
\<close>

theorem bayesian_update_certainty:
  assumes "0 \<le> lt" "lt \<le> 1" "0 \<le> lf" "lf \<le> 1"
  shows "bayesian_update 0 lt lf = 0 \<and> bayesian_update 1 lt lf = 1"
  by (simp add: bayesian_update_def)

theorem bayesian_update_certainty_witness:
  "bayesian_update 0 0.9 0.1 = 0 \<and> bayesian_update 1 0.9 0.1 = 1
   \<and> bayesian_update 0 0 0 = 0 \<and> bayesian_update 1 0 0 = 1"
  using bayesian_update_certainty [of "0.9" "0.1"] bayesian_update_certainty [of 0 0]
  by simp

section \<open>Rounding to a double\<close>

text \<open>The exponent search, characterised without the list.\<close>

lemma find_upto_Some:
  "find P [lo..hi] = Some q \<longleftrightarrow>
     lo \<le> q \<and> q \<le> hi \<and> P q \<and> (\<forall>j. lo \<le> j \<and> j < q \<longrightarrow> \<not> P j)"
proof (induction lo hi rule: upto.induct)
  case (1 i j)
  show ?case
  proof (cases "i \<le> j")
    case False
    then show ?thesis by (subst upto.simps) auto
  next
    case True
    then have unfold: "[i..j] = i # [i + 1..j]" by (rule upto_rec1)
    show ?thesis
    proof (cases "P i")
      case Pi: True
      have "(i \<le> q \<and> q \<le> j \<and> P q \<and> (\<forall>k. i \<le> k \<and> k < q \<longrightarrow> \<not> P k)) = (q = i)"
      proof
        assume r: "i \<le> q \<and> q \<le> j \<and> P q \<and> (\<forall>k. i \<le> k \<and> k < q \<longrightarrow> \<not> P k)"
        show "q = i"
        proof (rule ccontr)
          assume "q \<noteq> i"
          with r have "i \<le> i \<and> i < q" by simp
          with r have "\<not> P i" by blast
          with Pi show False by simp
        qed
      next
        assume "q = i"
        with Pi True show "i \<le> q \<and> q \<le> j \<and> P q \<and> (\<forall>k. i \<le> k \<and> k < q \<longrightarrow> \<not> P k)"
          by auto
      qed
      with Pi show ?thesis by (simp add: unfold eq_commute)
    next
      case nPi: False
      have "(i \<le> q \<and> q \<le> j \<and> P q \<and> (\<forall>k. i \<le> k \<and> k < q \<longrightarrow> \<not> P k)) =
            (i + 1 \<le> q \<and> q \<le> j \<and> P q \<and> (\<forall>k. i + 1 \<le> k \<and> k < q \<longrightarrow> \<not> P k))"
      proof -
        have "(i \<le> k \<and> k < q \<longrightarrow> \<not> P k) = (i + 1 \<le> k \<and> k < q \<longrightarrow> \<not> P k)" for k
          using nPi by (cases "k = i") auto
        moreover have "P q \<Longrightarrow> (i \<le> q) = (i + 1 \<le> q)"
          using nPi by (cases "q = i") auto
        ultimately show ?thesis by auto
      qed
      with nPi "1.IH" [OF True] show ?thesis by (simp add: unfold)
    qed
  qed
qed

lemma quantum_iff:
  "quantum x = Some q \<longleftrightarrow>
     -1074 \<le> q \<and> q \<le> 971 \<and> \<bar>x\<bar> < 2 powi (q + 53) \<and>
     (\<forall>j. -1074 \<le> j \<and> j < q \<longrightarrow> \<not> \<bar>x\<bar> < 2 powi (j + 53))"
  unfolding quantum_def by (rule find_upto_Some)

lemma quantum_Some:
  assumes "quantum x = Some q"
  shows "-1074 \<le> q" and "q \<le> 971" and "\<bar>x\<bar> < 2 powi (q + 53)"
    and "q = -1074 \<or> 2 powi (q + 52) \<le> \<bar>x\<bar>"
proof -
  from assms have q: "-1074 \<le> q" "q \<le> 971" "\<bar>x\<bar> < 2 powi (q + 53)"
    and least: "\<forall>j. -1074 \<le> j \<and> j < q \<longrightarrow> \<not> \<bar>x\<bar> < 2 powi (j + 53)"
    unfolding quantum_iff by blast+
  from q show "-1074 \<le> q" "q \<le> 971" "\<bar>x\<bar> < 2 powi (q + 53)" .
  show "q = -1074 \<or> 2 powi (q + 52) \<le> \<bar>x\<bar>"
  proof (cases "q = -1074")
    case True
    then show ?thesis ..
  next
    case False
    with q(1) have "-1074 \<le> q - 1 \<and> q - 1 < q" by simp
    with least have "\<not> \<bar>x\<bar> < 2 powi (q - 1 + 53)" by blast
    moreover have "q - 1 + 53 = q + 52" by simp
    ultimately show ?thesis by (simp only:) simp
  qed
qed

lemma quantum_eq:
  assumes "-1074 \<le> q" "q \<le> 971" "\<bar>x\<bar> < 2 powi (q + 53)"
    and "q = -1074 \<or> 2 powi (q + 52) \<le> \<bar>x\<bar>"
  shows "quantum x = Some q"
proof -
  have "\<not> \<bar>x\<bar> < 2 powi (j + 53)" if "-1074 \<le> j \<and> j < q" for j
  proof -
    from that have "q \<noteq> -1074" by linarith
    with assms(4) have "2 powi (q + 52) \<le> \<bar>x\<bar>" by simp
    moreover from that have "(2::real) powi (j + 53) \<le> 2 powi (q + 52)"
      by (intro power_int_increasing) simp_all
    ultimately show ?thesis by linarith
  qed
  with assms(1-3) show ?thesis
    unfolding quantum_iff by blast
qed

lemma quantum_exists:
  assumes "\<bar>x\<bar> < 2 powi 1024"
  shows "\<exists>q. quantum x = Some q"
proof (rule ccontr)
  assume none: "\<nexists>q. quantum x = Some q"
  have "\<exists>q. -1074 \<le> q \<and> q \<le> 971 \<and> \<bar>x\<bar> < 2 powi (q + 53) \<and>
          (\<forall>j. -1074 \<le> j \<and> j < q \<longrightarrow> \<not> \<bar>x\<bar> < 2 powi (j + 53))"
  proof -
    define Q where "Q = (\<lambda>n. \<bar>x\<bar> < 2 powi (int n - 1074 + 53))"
    have "Q 2045" using assms by (simp add: Q_def)
    then have L: "Q (LEAST n. Q n)" "(LEAST n. Q n) \<le> 2045"
      by (rule LeastI, rule Least_le)
    let ?n = "LEAST n. Q n"
    show ?thesis
    proof (intro exI [of _ "int ?n - 1074"] conjI allI impI)
      show "-1074 \<le> int ?n - 1074" by simp
      show "int ?n - 1074 \<le> 971" using L(2) by simp
      show "\<bar>x\<bar> < 2 powi (int ?n - 1074 + 53)" using L(1) by (simp add: Q_def)
      fix j assume j: "-1074 \<le> j \<and> j < int ?n - 1074"
      then have "nat (j + 1074) < ?n" by linarith
      then have "\<not> Q (nat (j + 1074))" by (rule not_less_Least)
      then have "\<not> \<bar>x\<bar> < 2 powi (int (nat (j + 1074)) - 1074 + 53)"
        unfolding Q_def .
      moreover from j have "int (nat (j + 1074)) - 1074 + 53 = j + 53" by simp
      ultimately show "\<not> \<bar>x\<bar> < 2 powi (j + 53)" by simp
    qed
  qed
  with none show False unfolding quantum_iff by blast
qed

lemma round_half_even_error: "\<bar>of_int (round_half_even y) - y\<bar> \<le> 1 / 2"
proof -
  have "of_int \<lfloor>y\<rfloor> \<le> y" "y < of_int \<lfloor>y\<rfloor> + 1" by linarith+
  then show ?thesis
    by (auto simp: round_half_even_def Let_def)
qed

text \<open>
  Rounding at a known exponent, and the error of rounding: half a unit in the last
  place, hence a relative error of at most \<open>2\<^bsup>-53\<^esup>\<close> for normal numbers and an
  absolute error of at most \<open>2\<^bsup>-1075\<^esup>\<close> for subnormal ones.
\<close>

lemma round_double_at:
  assumes "-1074 \<le> q" "q \<le> 971" "\<bar>x\<bar> < 2 powi (q + 53)"
    and "q = -1074 \<or> 2 powi (q + 52) \<le> \<bar>x\<bar>"
    and "of_int (round_half_even (x / 2 powi q)) * 2 powi q = y"
    and "\<bar>y\<bar> < 2 powi 1024"
  shows "round_double x = Some y"
proof -
  have "quantum x = Some q"
    using assms(1-4) by (rule quantum_eq)
  with assms(5,6) show ?thesis
    by (simp add: round_double_def Let_def)
qed

lemma round_double_zero: "round_double 0 = Some 0"
  by (rule round_double_at [of "-1074"]) (simp_all add: round_half_even_def)

lemma round_double_bound:
  assumes "\<bar>x\<bar> \<le> 2 ^ 1000"
  shows "\<exists>e. round_double x = Some (x + e) \<and> \<bar>e\<bar> \<le> \<bar>x\<bar> / 2 ^ 53 + 1 / 2 ^ 1075"
proof -
  have "(2::real) ^ 1000 < 2 powi 1024" by simp
  with assms have "\<bar>x\<bar> < 2 powi 1024" by linarith
  then obtain q where q: "quantum x = Some q"
    using quantum_exists by blast
  define y :: real where "y = of_int (round_half_even (x / 2 powi q)) * 2 powi q"
  have pos: "(0::real) < 2 powi q" by simp
  have "\<bar>y - x\<bar> = \<bar>of_int (round_half_even (x / 2 powi q)) - x / 2 powi q\<bar> * 2 powi q"
  proof -
    have "y - x = (of_int (round_half_even (x / 2 powi q)) - x / 2 powi q) * 2 powi q"
      using pos by (simp add: y_def field_simps)
    then show ?thesis
      using pos by (simp add: abs_mult)
  qed
  also have "\<dots> \<le> 1 / 2 * 2 powi q"
    using pos round_half_even_error [of "x / 2 powi q"] by (intro mult_right_mono) simp_all
  also have "\<dots> = 2 powi (q - 1)"
    by (simp add: power_int_diff)
  finally have err: "\<bar>y - x\<bar> \<le> 2 powi (q - 1)" .
  have small: "(2::real) powi (q - 1) \<le> \<bar>x\<bar> / 2 ^ 53 + 1 / 2 ^ 1075"
  proof (cases "q = -1074")
    case True
    have "(2::real) powi (q - 1) = 1 / 2 ^ 1075"
      unfolding True by (simp add: power_int_minus field_simps)
    then show ?thesis by simp
  next
    case False
    with quantum_Some(4) [OF q] have "2 powi (q + 52) \<le> \<bar>x\<bar>" by simp
    moreover have "(2::real) powi (q - 1) = 2 powi (q + 52) / 2 ^ 53"
    proof -
      have "q + 52 = (q - 1) + 53" by simp
      then have "(2::real) powi (q + 52) = 2 powi ((q - 1) + 53)" by (simp only:)
      also have "\<dots> = 2 powi (q - 1) * 2 powi 53"
        by (rule power_int_add) simp
      finally have "(2::real) powi (q + 52) = 2 powi (q - 1) * 2 ^ 53" by simp
      then show ?thesis by simp
    qed
    ultimately have "(2::real) powi (q - 1) \<le> \<bar>x\<bar> / 2 ^ 53"
      by (simp add: divide_right_mono)
    then show ?thesis by simp
  qed
  have "\<bar>y\<bar> \<le> \<bar>x\<bar> + \<bar>y - x\<bar>" by simp
  also have "\<dots> \<le> 2 ^ 1000 + (2 ^ 1000 / 2 ^ 53 + 1 / 2 ^ 1075)"
    using assms err small by (intro add_mono) (auto intro: order_trans divide_right_mono)
  also have "\<dots> < 2 powi 1024" by simp
  finally have "\<bar>y\<bar> < 2 powi 1024" .
  with q have "round_double x = Some (x + (y - x))"
    by (simp add: round_double_def Let_def y_def)
  moreover from err small have "\<bar>y - x\<bar> \<le> \<bar>x\<bar> / 2 ^ 53 + 1 / 2 ^ 1075" by linarith
  ultimately show ?thesis by blast
qed

lemma round_double_one: "round_double 1 = Some 1"
  by (rule round_double_at [of "-52"]) (simp_all add: round_half_even_def)

text \<open>
  The fixed points 0 and 1 of the update are the same in double precision: with
  likelihoods that are doubles, none of the operations involved rounds.
\<close>

lemma bayesian_update_double_certainty:
  assumes "round_double lt = Some lt" "round_double lf = Some lf"
  shows "bayesian_update_double 0 lt lf = Some 0" and "bayesian_update_double 1 lt lf = Some 1"
  using assms
  by (simp_all add: bayesian_update_double_def round_double_zero round_double_one)

section \<open>Equal likelihoods in double precision\<close>

text \<open>The update of prior 0.1 with both likelihoods 0.4, one operation at a time.\<close>

lemma literal_0_1: "round_double 0.1 = Some double_0_1"
  unfolding double_0_1_def
  by (rule round_double_at [of "-56"]) (simp_all add: round_half_even_def)

lemma literal_0_4: "round_double 0.4 = Some double_0_4"
  unfolding double_0_4_def
  by (rule round_double_at [of "-54"]) (simp_all add: round_half_even_def)

lemma step_true_part:
  "round_double (double_0_4 * double_0_1) = Some (1441151880758559 / 2 ^ 55)"
  unfolding double_0_1_def double_0_4_def
  by (rule round_double_at [of "-57"]) (simp_all add: round_half_even_def)

lemma step_complement:
  "round_double (1 - double_0_1) = Some (8106479329266893 / 2 ^ 53)"
  unfolding double_0_1_def
  by (rule round_double_at [of "-53"]) (simp_all add: round_half_even_def)

lemma step_false_part:
  "round_double (double_0_4 * (8106479329266893 / 2 ^ 53)) = Some (6485183463413515 / 2 ^ 54)"
  unfolding double_0_4_def
  by (rule round_double_at [of "-54"]) (simp_all add: round_half_even_def)

lemma step_evidence:
  "round_double (1441151880758559 / 2 ^ 55 + 6485183463413515 / 2 ^ 54) = Some double_0_4"
  unfolding double_0_4_def
  by (rule round_double_at [of "-54"]) (simp_all add: round_half_even_def)

lemma step_posterior:
  "round_double (1441151880758559 / 2 ^ 55 / double_0_4) = Some (double_0_1 + 1 / 2 ^ 56)"
  unfolding double_0_4_def double_0_1_def
  by (rule round_double_at [of "-56"]) (simp_all add: round_half_even_def)

text \<open>
  C7 as stated fails on the program's doubles: for prior 0.1 and both likelihoods 0.4
  the call returns the double that follows 0.1, printed 0.10000000000000002, and not
  the prior.
\<close>

theorem bayesian_update_rounding:
  "round_double 0.1 = Some double_0_1 \<and> round_double 0.4 = Some double_0_4
   \<and> bayesian_update_double double_0_1 double_0_4 double_0_4 = Some (double_0_1 + 1 / 2 ^ 56)
   \<and> bayesian_update_double double_0_1 double_0_4 double_0_4 \<noteq> Some double_0_1"
proof -
  have "double_0_4 \<noteq> 0" by (simp add: double_0_4_def)
  then have "bayesian_update_double double_0_1 double_0_4 double_0_4 =
      Some (double_0_1 + 1 / 2 ^ 56)"
    unfolding bayesian_update_double_def step_true_part step_complement
    by (simp only: Option.bind.simps step_false_part step_evidence step_posterior if_False)
  with literal_0_1 literal_0_4 show ?thesis
    by simp
qed

text \<open>
  When the product of likelihood and prior is tiny, it is lost altogether: for prior
  0.3 and both likelihoods 5e-324 the call returns 0.
\<close>

lemma literal_0_3: "round_double 0.3 = Some double_0_3"
  unfolding double_0_3_def
  by (rule round_double_at [of "-54"]) (simp_all add: round_half_even_def)

lemma literal_5e_324: "round_double (5 / 10 ^ 324) = Some double_min"
  unfolding double_min_def
  by (rule round_double_at [of "-1074"]) (simp_all add: round_half_even_def)

lemma underflow_true_part: "round_double (double_min * double_0_3) = Some 0"
  unfolding double_0_3_def double_min_def
  by (rule round_double_at [of "-1074"]) (simp_all add: round_half_even_def)

lemma underflow_complement:
  "round_double (1 - double_0_3) = Some (6305039478318694 / 2 ^ 53)"
  unfolding double_0_3_def
  by (rule round_double_at [of "-53"]) (simp_all add: round_half_even_def)

lemma underflow_false_part:
  "round_double (double_min * (6305039478318694 / 2 ^ 53)) = Some double_min"
  unfolding double_min_def
  by (rule round_double_at [of "-1074"]) (simp_all add: round_half_even_def)

lemma underflow_evidence: "round_double (0 + double_min) = Some double_min"
  unfolding double_min_def
  by (rule round_double_at [of "-1074"]) (simp_all add: round_half_even_def)

lemma bayesian_update_underflow:
  "bayesian_update_double double_0_3 double_min double_min = Some 0"
proof -
  have "double_min \<noteq> 0" by (simp add: double_min_def)
  then show ?thesis
    unfolding bayesian_update_double_def underflow_true_part underflow_complement
    by (simp only: Option.bind.simps underflow_false_part underflow_evidence if_False
        div_0 round_double_zero)
qed

text \<open>
  The error of the five rounded operations, one after the other. \<open>u\<close> bounds the
  relative and \<open>\<eta>\<close> the absolute rounding error.
\<close>

lemma complement_bound:
  fixes u \<eta> p b :: real
  assumes "0 < u" "u \<le> 1 / 1000" "0 \<le> \<eta>" "\<eta> \<le> 1 / 1000" "0 \<le> p" "p \<le> 1"
    and b: "\<bar>b - (1 - p)\<bar> \<le> u * \<bar>1 - p\<bar> + \<eta>"
  shows "\<bar>b\<bar> \<le> 2" and "\<bar>b - (1 - p)\<bar> \<le> u + \<eta>"
proof -
  have "u * \<bar>1 - p\<bar> \<le> u * 1"
    using assms by (intro mult_left_mono) simp_all
  with b show "\<bar>b - (1 - p)\<bar> \<le> u + \<eta>" by simp
  with assms show "\<bar>b\<bar> \<le> 2" by simp
qed

lemma evidence_sum_bound:
  fixes u \<eta> p l a b c :: real
  assumes u: "0 < u" "u \<le> 1 / 1000"
    and \<eta>: "0 \<le> \<eta>" "\<eta> \<le> u * (l * p) / 1000"
    and p: "0 \<le> p" "p \<le> 1" and l: "0 \<le> l" "l \<le> 1"
    and a: "\<bar>a - l * p\<bar> \<le> u * \<bar>l * p\<bar> + \<eta>"
    and b: "\<bar>b - (1 - p)\<bar> \<le> u * \<bar>1 - p\<bar> + \<eta>"
    and c: "\<bar>c - l * b\<bar> \<le> u * \<bar>l * b\<bar> + \<eta>"
  shows "\<bar>a + c - l\<bar> \<le> (4003 / 1000) * (u * l)"
proof -
  define ul where "ul = u * l"
  define uw where "uw = u * (l * p)"
  have w_le: "l * p \<le> l"
    using p l by (simp add: mult_left_le)
  have uw_le: "uw \<le> ul"
    unfolding uw_def ul_def using u w_le by (intro mult_left_mono) simp_all
  have ul_le: "ul \<le> u"
    unfolding ul_def using u l by (simp add: mult_left_le)
  have uw0: "0 \<le> uw" unfolding uw_def using u p l by simp
  have \<eta>': "\<eta> \<le> uw / 1000" using \<eta>(2) by (simp add: uw_def)
  with uw_le ul_le u have \<eta>_small: "\<eta> \<le> 1 / 1000" by linarith
  have A: "\<bar>a - l * p\<bar> \<le> uw + \<eta>"
    using a p l by (simp add: uw_def abs_mult)
  note B = complement_bound [OF u \<eta>(1) \<eta>_small p b]
  have "\<bar>l * b - l * (1 - p)\<bar> = l * \<bar>b - (1 - p)\<bar>"
    using l by (simp add: abs_mult right_diff_distrib [symmetric])
  also have "\<dots> \<le> l * (u + \<eta>)"
    using l B(2) by (intro mult_left_mono) simp_all
  also have "\<dots> = ul + l * \<eta>"
    by (simp add: ul_def algebra_simps)
  also have "\<dots> \<le> ul + \<eta>"
    using l \<eta>(1) by (simp add: mult_left_le_one_le)
  finally have LB: "\<bar>l * b - l * (1 - p)\<bar> \<le> ul + \<eta>" .
  have "u * \<bar>l * b\<bar> = ul * \<bar>b\<bar>"
    using l by (simp add: ul_def abs_mult)
  also have "\<dots> \<le> ul * 2"
    using B(1) u l by (intro mult_left_mono) (simp_all add: ul_def)
  finally have C: "\<bar>c - l * b\<bar> \<le> 2 * ul + \<eta>"
    using c by simp
  have "a + c - l = (a - l * p) + (c - l * b) + (l * b - l * (1 - p))"
    by (simp add: algebra_simps)
  then have "\<bar>a + c - l\<bar> \<le> \<bar>a - l * p\<bar> + \<bar>c - l * b\<bar> + \<bar>l * b - l * (1 - p)\<bar>"
    by linarith
  with A C LB \<eta>' uw_le uw0 have "\<bar>a + c - l\<bar> \<le> (4003 / 1000) * ul" by linarith
  then show ?thesis unfolding ul_def .
qed

lemma evidence_bound:
  fixes u \<eta> p l s ev :: real
  assumes u: "0 < u" "u \<le> 1 / 1000"
    and \<eta>: "0 \<le> \<eta>" "\<eta> \<le> u * (l * p) / 1000"
    and p: "0 \<le> p" "p \<le> 1" and l: "0 \<le> l" "l \<le> 1"
    and s: "\<bar>s - l\<bar> \<le> (4003 / 1000) * (u * l)"
    and ev: "\<bar>ev - s\<bar> \<le> u * \<bar>s\<bar> + \<eta>"
  shows "\<bar>ev - l\<bar> \<le> (501 / 100) * (u * l)" and "(99 / 100) * l \<le> ev"
proof -
  define ul where "ul = u * l"
  have ul0: "0 \<le> ul" unfolding ul_def using u l by simp
  have ul_l: "ul \<le> l / 1000"
    unfolding ul_def using u l mult_right_mono [of u "1 / 1000" l] by simp
  have "u * (l * p) \<le> u * l"
    using u p l by (intro mult_left_mono) (simp_all add: mult_left_le)
  with \<eta>(2) have \<eta>': "\<eta> \<le> ul / 1000" by (simp add: ul_def)
  from s have s1: "\<bar>s - l\<bar> \<le> (4003 / 1000) * ul"
    unfolding ul_def .
  with l have s': "\<bar>s\<bar> \<le> l + (4003 / 1000) * ul"
    by linarith
  have "u * \<bar>s\<bar> \<le> u * (l + (4003 / 1000) * ul)"
    using u s' by (intro mult_left_mono) simp_all
  also have "\<dots> = ul + (4003 / 1000) * (u * ul)"
    by (simp add: ul_def algebra_simps)
  also have "u * ul \<le> 1 / 1000 * ul"
    using u ul0 by (intro mult_right_mono) simp_all
  finally have "u * \<bar>s\<bar> \<le> ul + (4003 / 1000) * (1 / 1000 * ul)" by simp
  with ev \<eta>' s1 ul0 have bound: "\<bar>ev - l\<bar> \<le> (501 / 100) * ul"
    by linarith
  then show "\<bar>ev - l\<bar> \<le> (501 / 100) * (u * l)"
    unfolding ul_def .
  from bound ul_l show "(99 / 100) * l \<le> ev"
    by linarith
qed

lemma quotient_bound:
  fixes u \<eta> p l a ev :: real
  assumes u: "0 < u" "u \<le> 1 / 1000"
    and \<eta>: "0 \<le> \<eta>" "\<eta> \<le> u * (l * p) / 1000"
    and p: "0 \<le> p" "p \<le> 1" and l: "0 < l" "l \<le> 1"
    and a: "\<bar>a - l * p\<bar> \<le> u * \<bar>l * p\<bar> + \<eta>"
    and ev: "\<bar>ev - l\<bar> \<le> (501 / 100) * (u * l)" "(99 / 100) * l \<le> ev"
  shows "\<bar>a / ev - p\<bar> \<le> (608 / 100) * (u * p)"
proof -
  define uw where "uw = u * (l * p)"
  have uw0: "0 \<le> uw" unfolding uw_def using u p l by simp
  have \<eta>': "\<eta> \<le> uw / 1000" using \<eta>(2) by (simp add: uw_def)
  have A: "\<bar>a - l * p\<bar> \<le> uw + \<eta>"
    using a p l by (simp add: uw_def abs_mult)
  have "0 < (99 / 100) * l" using l by simp
  with ev(2) have ev0: "0 < ev" by linarith
  have "\<bar>p * (ev - l)\<bar> = p * \<bar>ev - l\<bar>"
    using p by (simp add: abs_mult)
  also have "\<dots> \<le> p * ((501 / 100) * (u * l))"
    using p ev(1) by (intro mult_left_mono) simp_all
  also have "\<dots> = (501 / 100) * uw"
    by (simp add: uw_def algebra_simps)
  finally have P: "\<bar>p * (ev - l)\<bar> \<le> (501 / 100) * uw" .
  have "a - p * ev = (a - l * p) - p * (ev - l)"
    by (simp add: algebra_simps)
  then have "\<bar>a - p * ev\<bar> \<le> \<bar>a - l * p\<bar> + \<bar>p * (ev - l)\<bar>"
    by linarith
  with A P \<eta>' have num: "\<bar>a - p * ev\<bar> \<le> (6011 / 1000) * uw" by linarith
  have "a / ev - p = (a - p * ev) / ev"
    using ev0 by (simp add: field_simps)
  then have "\<bar>a / ev - p\<bar> = \<bar>a - p * ev\<bar> / ev"
    using ev0 by (simp add: abs_divide)
  also have "\<dots> \<le> ((6011 / 1000) * uw) / ((99 / 100) * l)"
    using num ev(2) l uw0 by (intro frac_le) simp_all
  also have "\<dots> = (6011 / 1000) / (99 / 100) * (u * p)"
    using l by (simp add: uw_def field_simps)
  also have "\<dots> \<le> (608 / 100) * (u * p)"
    using u p by (intro mult_right_mono) simp_all
  finally show ?thesis .
qed

lemma posterior_bound:
  fixes u \<eta> p l q post :: real
  assumes u: "0 < u" "u \<le> 1 / 1000"
    and \<eta>: "0 \<le> \<eta>" "\<eta> \<le> u * (l * p) / 1000"
    and p: "0 \<le> p" "p \<le> 1" and l: "0 < l" "l \<le> 1"
    and q: "\<bar>q - p\<bar> \<le> (608 / 100) * (u * p)"
    and post: "\<bar>post - q\<bar> \<le> u * \<bar>q\<bar> + \<eta>"
  shows "\<bar>post - p\<bar> \<le> 8 * (u * p)"
proof -
  define up where "up = u * p"
  have up0: "0 \<le> up" unfolding up_def using u p by simp
  have "u * (l * p) = l * up" by (simp add: up_def)
  also have "\<dots> \<le> up"
    using l up0 by (simp add: mult_left_le_one_le)
  finally have \<eta>': "\<eta> \<le> up / 1000" using \<eta>(2) by simp
  from q have q1: "\<bar>q - p\<bar> \<le> (608 / 100) * up"
    unfolding up_def .
  with p have q': "\<bar>q\<bar> \<le> p + (608 / 100) * up"
    by linarith
  have "u * \<bar>q\<bar> \<le> u * (p + (608 / 100) * up)"
    using u q' by (intro mult_left_mono) simp_all
  also have "\<dots> = up + (608 / 100) * (u * up)"
    by (simp add: up_def algebra_simps)
  also have "u * up \<le> 1 / 1000 * up"
    using u up0 by (intro mult_right_mono) simp_all
  finally have "u * \<bar>q\<bar> \<le> up + (608 / 100) * (1 / 1000 * up)" by simp
  with post \<eta>' q1 up0 have "\<bar>post - p\<bar> \<le> 8 * up"
    by linarith
  then show ?thesis unfolding up_def .
qed

lemma round_double_rel:
  assumes "\<bar>x\<bar> \<le> 2"
  obtains y where "round_double x = Some y"
    and "\<bar>y - x\<bar> \<le> 1 / 2 ^ 53 * \<bar>x\<bar> + 1 / 2 ^ 1075"
proof -
  have "(2::real) \<le> 2 ^ 1000" by simp
  with assms have "\<bar>x\<bar> \<le> 2 ^ 1000" by linarith
  from round_double_bound [OF this] obtain e
    where e: "round_double x = Some (x + e)" "\<bar>e\<bar> \<le> \<bar>x\<bar> / 2 ^ 53 + 1 / 2 ^ 1075"
    by blast
  show ?thesis
  proof (rule that [of "x + e"])
    show "round_double x = Some (x + e)" by (rule e(1))
    show "\<bar>x + e - x\<bar> \<le> 1 / 2 ^ 53 * \<bar>x\<bar> + 1 / 2 ^ 1075" using e(2) by simp
  qed
qed

lemma bayesian_update_double_zero_likelihood:
  assumes "0 \<le> prior" "prior \<le> 1"
  shows "bayesian_update_double prior 0 0 = Some prior"
proof -
  from assms have "\<bar>1 - prior\<bar> \<le> 2" by simp
  then obtain b where "round_double (1 - prior) = Some b"
    by (rule round_double_rel)
  then show ?thesis
    by (simp add: bayesian_update_double_def round_double_zero)
qed

lemma bayesian_update_double_error:
  assumes p: "0 \<le> prior" "prior \<le> 1" and l: "0 \<le> l" "l \<le> 1"
    and w: "1 / 2 ^ 1000 \<le> l * prior"
  shows "\<exists>posterior. bayesian_update_double prior l l = Some posterior
           \<and> \<bar>posterior - prior\<bar> \<le> prior / 2 ^ 50"
proof -
  define u :: real where "u = 1 / 2 ^ 53"
  define \<eta> :: real where "\<eta> = 1 / 2 ^ 1075"
  have u: "0 < u" "u \<le> 1 / 1000" by (simp_all add: u_def)
  have \<eta>0: "0 \<le> \<eta>" by (simp add: \<eta>_def)
  have "\<eta> \<le> u * (1 / 2 ^ 1000) / 1000" by (simp add: \<eta>_def u_def)
  also have "\<dots> \<le> u * (l * prior) / 1000"
    using w u by (intro divide_right_mono mult_left_mono) simp_all
  finally have \<eta>: "\<eta> \<le> u * (l * prior) / 1000" .
  have wpos: "0 < l * prior"
  proof -
    have "(0::real) < 1 / 2 ^ 1000" by simp
    with w show ?thesis by linarith
  qed
  with l p have lpos: "0 < l"
    by (cases "l = 0") simp_all
  have w1: "l * prior \<le> 1"
    using p l by (simp add: mult_le_one)
  with wpos have "\<bar>l * prior\<bar> \<le> 2" by simp
  then obtain a where a: "round_double (l * prior) = Some a"
    and a_err: "\<bar>a - l * prior\<bar> \<le> u * \<bar>l * prior\<bar> + \<eta>"
    unfolding u_def \<eta>_def by (rule round_double_rel)
  from p have "\<bar>1 - prior\<bar> \<le> 2" by simp
  then obtain b where b: "round_double (1 - prior) = Some b"
    and b_err: "\<bar>b - (1 - prior)\<bar> \<le> u * \<bar>1 - prior\<bar> + \<eta>"
    unfolding u_def \<eta>_def by (rule round_double_rel)
  have \<eta>_small: "\<eta> \<le> 1 / 1000" by (simp add: \<eta>_def)
  from complement_bound(1) [OF u \<eta>0 \<eta>_small p b_err] have "\<bar>b\<bar> \<le> 2" .
  then have "\<bar>l * b\<bar> \<le> 1 * 2"
    unfolding abs_mult using l by (intro mult_mono) simp_all
  then have "\<bar>l * b\<bar> \<le> 2" by simp
  then obtain c where c: "round_double (l * b) = Some c"
    and c_err: "\<bar>c - l * b\<bar> \<le> u * \<bar>l * b\<bar> + \<eta>"
    unfolding u_def \<eta>_def by (rule round_double_rel)
  have s: "\<bar>a + c - l\<bar> \<le> (4003 / 1000) * (u * l)"
    by (rule evidence_sum_bound [OF u \<eta>0 \<eta> p l a_err b_err c_err])
  have ul: "u * l \<le> 1 / 1000"
    using u l mult_mono [of u "1 / 1000" l 1] by simp
  with s l have "\<bar>a + c\<bar> \<le> 2" by linarith
  then obtain ev where ev: "round_double (a + c) = Some ev"
    and ev_err: "\<bar>ev - (a + c)\<bar> \<le> u * \<bar>a + c\<bar> + \<eta>"
    unfolding u_def \<eta>_def by (rule round_double_rel)
  note ev_bounds = evidence_bound [OF u \<eta>0 \<eta> p l s ev_err]
  have "0 < (99 / 100) * l" using lpos by simp
  with ev_bounds(2) have ev_pos: "0 < ev" by linarith
  have q: "\<bar>a / ev - prior\<bar> \<le> (608 / 100) * (u * prior)"
    by (rule quotient_bound [OF u \<eta>0 \<eta> p lpos l(2) a_err ev_bounds])
  have up: "u * prior \<le> 1 / 1000"
    using u p mult_mono [of u "1 / 1000" prior 1] by simp
  with q p have "\<bar>a / ev\<bar> \<le> 2" by linarith
  then obtain post where post: "round_double (a / ev) = Some post"
    and post_err: "\<bar>post - a / ev\<bar> \<le> u * \<bar>a / ev\<bar> + \<eta>"
    unfolding u_def \<eta>_def by (rule round_double_rel)
  have "\<bar>post - prior\<bar> \<le> 8 * (u * prior)"
    by (rule posterior_bound [OF u \<eta>0 \<eta> p lpos l(2) q post_err])
  then have "\<bar>post - prior\<bar> \<le> prior / 2 ^ 50"
    by (simp add: u_def)
  moreover from ev_pos have "bayesian_update_double prior l l = Some post"
    by (simp add: bayesian_update_double_def a b c ev post)
  ultimately show ?thesis by blast
qed

text \<open>
  C7, amended. For a prior and a likelihood in the unit interval, the update with the
  same likelihood for both hypotheses returns the prior unchanged when the likelihood
  is 0, where the evidence is 0 and nothing is divided; and when the product of
  likelihood and prior is at least \<open>2\<^bsup>-1000\<^esup>\<close>, it returns a posterior whose relative
  distance from the prior is at most \<open>2\<^bsup>-50\<^esup>\<close>.
\<close>

theorem bayesian_update_double_equal_likelihoods:
  assumes "0 \<le> prior" "prior \<le> 1" "0 \<le> l" "l \<le> 1"
  shows "(l = 0 \<longrightarrow> bayesian_update_double prior l l = Some prior)
       \<and> (1 / 2 ^ 1000 \<le> l * prior \<longrightarrow>
            (\<exists>posterior. bayesian_update_double prior l l = Some posterior
               \<and> \<bar>posterior - prior\<bar> \<le> prior / 2 ^ 50))"
  using assms bayesian_update_double_zero_likelihood bayesian_update_double_error
  by blast

theorem bayesian_update_double_equal_likelihoods_witness:
  "bayesian_update_double double_0_1 0 0 = Some double_0_1
   \<and> 1 / 2 ^ 1000 \<le> double_0_4 * double_0_1
   \<and> (\<exists>posterior. bayesian_update_double double_0_1 double_0_4 double_0_4 = Some posterior
         \<and> \<bar>posterior - double_0_1\<bar> \<le> double_0_1 / 2 ^ 50)"
proof -
  have h: "0 \<le> double_0_1" "double_0_1 \<le> 1" "0 \<le> double_0_4" "double_0_4 \<le> 1"
    by (simp_all add: double_0_1_def double_0_4_def)
  have w: "1 / 2 ^ 1000 \<le> double_0_4 * double_0_1"
    by (simp add: double_0_1_def double_0_4_def)
  from bayesian_update_double_equal_likelihoods [OF h(1,2), of 0]
    bayesian_update_double_equal_likelihoods [OF h] w
  show ?thesis by simp
qed

section \<open>Percentiles of the simulation\<close>

text \<open>The interpolated value lies between its two neighbours and grows with the index.\<close>

lemma np_percentile_interpolate:
  "np_percentile a q = interpolate (sort a) (length a - 1) (q / 100 * real (length a - 1))"
  by (simp add: np_percentile_def interpolate_def Let_def)

lemma floor_index:
  assumes "0 \<le> h" "h \<le> real m"
  shows "nat \<lfloor>h\<rfloor> \<le> m" "real (nat \<lfloor>h\<rfloor>) \<le> h" "h < real (nat \<lfloor>h\<rfloor>) + 1"
proof -
  from assms(1) have nn: "0 \<le> \<lfloor>h\<rfloor>" by simp
  from assms(2) have "\<lfloor>h\<rfloor> \<le> int m"
    by (simp add: floor_le_iff)
  with nn show "nat \<lfloor>h\<rfloor> \<le> m" by simp
  from nn have r: "real (nat \<lfloor>h\<rfloor>) = of_int \<lfloor>h\<rfloor>" by simp
  show "real (nat \<lfloor>h\<rfloor>) \<le> h" unfolding r by simp
  show "h < real (nat \<lfloor>h\<rfloor>) + 1" unfolding r by linarith
qed

lemma interpolate_between:
  assumes "sorted s" "m < length s" "0 \<le> h" "h \<le> real m"
  shows "s ! nat \<lfloor>h\<rfloor> \<le> interpolate s m h"
    and "interpolate s m h \<le> s ! min (nat \<lfloor>h\<rfloor> + 1) m"
proof -
  let ?lo = "nat \<lfloor>h\<rfloor>" and ?hi = "min (nat \<lfloor>h\<rfloor> + 1) m"
  note idx = floor_index [OF assms(3,4)]
  have "?lo \<le> ?hi" using idx(1) by simp
  moreover have "?hi < length s" using assms(2) by simp
  ultimately have le: "s ! ?lo \<le> s ! ?hi"
    using assms(1) by (simp add: sorted_nth_mono)
  have f0: "0 \<le> h - real ?lo" and f1: "h - real ?lo \<le> 1"
    using idx(2,3) by linarith+
  have eq: "interpolate s m h = s ! ?lo + (s ! ?hi - s ! ?lo) * (h - real ?lo)"
    by (simp add: interpolate_def Let_def)
  from le f0 have "0 \<le> (s ! ?hi - s ! ?lo) * (h - real ?lo)" by simp
  then show "s ! ?lo \<le> interpolate s m h" unfolding eq by simp
  from le f1 have "(s ! ?hi - s ! ?lo) * (h - real ?lo) \<le> (s ! ?hi - s ! ?lo) * 1"
    by (intro mult_left_mono) simp_all
  then show "interpolate s m h \<le> s ! ?hi" unfolding eq by simp
qed

lemma interpolate_mono:
  assumes "sorted s" "m < length s" "0 \<le> h" "h \<le> h'" "h' \<le> real m"
  shows "interpolate s m h \<le> interpolate s m h'"
proof -
  let ?lo = "nat \<lfloor>h\<rfloor>" and ?lo' = "nat \<lfloor>h'\<rfloor>"
  have h: "h \<le> real m" and h': "0 \<le> h'" using assms by simp_all
  note idx = floor_index [OF assms(3) h] and idx' = floor_index [OF h' assms(5)]
  have lo_le: "?lo \<le> ?lo'"
    using assms(4) by (simp add: floor_mono nat_mono)
  show ?thesis
  proof (cases "?lo = ?lo'")
    case True
    let ?hi = "min (?lo + 1) m"
    have "?lo \<le> ?hi" using idx(1) by simp
    moreover have "?hi < length s" using assms(2) by simp
    ultimately have "s ! ?lo \<le> s ! ?hi"
      using assms(1) by (simp add: sorted_nth_mono)
    then have "(s ! ?hi - s ! ?lo) * (h - real ?lo) \<le> (s ! ?hi - s ! ?lo) * (h' - real ?lo)"
      using assms(4) by (intro mult_left_mono) simp_all
    then show ?thesis
      by (simp add: interpolate_def Let_def True [symmetric])
  next
    case False
    with lo_le have lt: "?lo + 1 \<le> ?lo'" by simp
    have "interpolate s m h \<le> s ! min (?lo + 1) m"
      by (rule interpolate_between [OF assms(1,2,3) h])
    also have "\<dots> \<le> s ! ?lo'"
    proof (rule sorted_nth_mono [OF assms(1)])
      show "min (?lo + 1) m \<le> ?lo'" using lt by simp
      show "?lo' < length s" using idx'(1) assms(2) by simp
    qed
    also have "\<dots> \<le> interpolate s m h'"
      by (rule interpolate_between [OF assms(1,2) h' assms(5)])
    finally show ?thesis .
  qed
qed

lemma np_percentile_mono:
  assumes "a \<noteq> []" "0 \<le> q" "q \<le> q'" "q' \<le> 100"
  shows "np_percentile a q \<le> np_percentile a q'"
proof -
  let ?m = "length a - 1"
  have m: "?m < length (sort a)" using assms(1) by (cases a) simp_all
  have "0 \<le> q / 100 * real ?m" using assms(2) by simp
  moreover have "q / 100 * real ?m \<le> q' / 100 * real ?m"
    using assms(3) by (intro mult_right_mono) simp_all
  moreover have "q' / 100 * real ?m \<le> 1 * real ?m"
    using assms(4) by (intro mult_right_mono) simp_all
  ultimately show ?thesis
    unfolding np_percentile_interpolate
    by (intro interpolate_mono [OF _ m]) simp_all
qed

text \<open>
  C8. Whenever the simulation returns its statistics, drawn from arrays of the length
  asked for, the percentile fields are in rank order: p5, p10, p25, p50, p75, p90, p95
  never decrease. \<^verbatim>\<open>np.percentile\<close> is NumPy's default linear interpolation, over
  the reals.
\<close>

theorem percentiles_non_decreasing:
  assumes "monte_carlo_simulation normal_draws uniform_draws base_case volatility n
             include_black_swan = Some r"
    and "length normal_draws = n" "length uniform_draws = n"
  shows "p5 r \<le> p10 r \<and> p10 r \<le> p25 r \<and> p25 r \<le> p50 r \<and> p50 r \<le> p75 r
       \<and> p75 r \<le> p90 r \<and> p90 r \<le> p95 r"
proof -
  define simulations where "simulations =
    (if include_black_swan
     then map2 (\<lambda>x u. if u < 0.01 then base_case * 0.1 else x) normal_draws uniform_draws
     else normal_draws)"
  from assms(1) have n: "n \<noteq> 0"
    by (auto simp: monte_carlo_simulation_def split: if_splits)
  with assms(2,3) have "length simulations = n"
    by (simp add: simulations_def)
  with n have ne: "simulations \<noteq> []" by auto
  from assms(1) have r:
    "p5 r = np_percentile simulations 5" "p10 r = np_percentile simulations 10"
    "p25 r = np_percentile simulations 25" "p50 r = np_percentile simulations 50"
    "p75 r = np_percentile simulations 75" "p90 r = np_percentile simulations 90"
    "p95 r = np_percentile simulations 95"
    by (auto simp: monte_carlo_simulation_def simulations_def Let_def split: if_splits)
  show ?thesis
    unfolding r by (intro conjI np_percentile_mono [OF ne]) simp_all
qed

theorem percentiles_non_decreasing_witness:
  "\<exists>r. monte_carlo_simulation [12, 8, 11] [0.5, 0.001, 0.3] 10 0.3 3 True = Some r
     \<and> p5 r \<le> p10 r \<and> p10 r \<le> p25 r \<and> p25 r \<le> p50 r \<and> p50 r \<le> p75 r
     \<and> p75 r \<le> p90 r \<and> p90 r \<le> p95 r"
proof -
  obtain r where r: "monte_carlo_simulation [12, 8, 11] [0.5, 0.001, 0.3] 10 0.3 3 True = Some r"
    by (simp add: monte_carlo_simulation_def Let_def)
  from percentiles_non_decreasing [OF r] r show ?thesis by simp
qed

end
